theory Spec2Isabelle
  imports Main
begin

section \<open>The results page: a streaming conversation over server-sent events\<close>

text \<open>
  A shallow embedding of the component \<open>ResultsPage\<close>: its React state, the module-level
  variable \<open>prevEventSource\<close>, the callbacks \<open>makeSearch\<close> and \<open>handleNewMessage\<close>, the
  two handlers installed on every \<open>EventSource\<close>, and the effect that follows
  \<open>lastServerResponse\<close>. State is passed explicitly; an exception is the result \<open>Inl\<close>.
\<close>

subsection \<open>Data\<close>

datatype Author = User | Server

text \<open>
  Modelled from the spec: the type \<open>NLSnippet\<close> of a wire snippet is declared in
  \<open>types/api\<close>, outside the sources at hand. Its fields are the ones the header branch
  reads, as the spec lists them (\<open>relative_path\<close>, \<open>text\<close>, \<open>repo_name\<close>, \<open>lang\<close>,
  \<open>start_line\<close>). \<open>Snippet\<close> is the object literal the header branch maps it to.
\<close>

record NLSnippet =
  relative_path :: string
  text' :: string
  repo_name :: string
  lang :: string
  start_line :: nat

record Snippet =
  path :: string
  code :: string
  repoName :: string
  lang :: string
  line :: nat

text \<open>
  \<open>newData\<close>, the value of \<open>JSON.parse(ev.data)\<close>: an object whose keys \<open>Err\<close>,
  \<open>query_id\<close>, \<open>snippets\<close> and \<open>Ok\<close> may each be absent (\<open>None\<close> is JavaScript's
  \<open>undefined\<close>).
\<close>

record Answer =
  Err :: "string option"
  query_id :: "string option"
  snippets :: "NLSnippet list option"
  Ok :: "string option"

text \<open>
  \<open>JSON.parse\<close> also returns values that are not objects of the schema. Such a value
  is \<open>null\<close>, or it is given here by what the handler reads from it:
  \<^item> \<open>Err\<close>, tested for truthiness and stored when truthy: a string, or \<open>None\<close> for
    \<open>undefined\<close> and the other falsy values (\<open>null\<close>, \<open>false\<close>, \<open>0\<close>);
  \<^item> \<open>query_id\<close>, stored: a string or \<open>undefined\<close>;
  \<^item> \<open>snippets\<close>: \<open>undefined\<close> or \<open>null\<close> (\<open>Absent\<close>), a value without a callable
    \<open>map\<close> (a boolean, a number, a string, an object: \<open>NotArray\<close>), or an array whose
    items are snippets or \<open>null\<close>;
  \<^item> \<open>Ok\<close>, only ever appended to a string: the string that \<open>+\<close> appends for it
    (\<open>undefined\<close>, \<open>null\<close>, \<open>42\<close>, \<open>true\<close>, or the string itself).

  A boolean, a number, a string and an array have none of the four properties: every
  read gives \<open>undefined\<close>. So \<open>{"snippets": "abc"}\<close> reads as \<open>None\<close>, \<open>None\<close>, \<open>NotArray\<close>,
  \<open>undefined\<close>, and \<open>{"Ok": null}\<close> as \<open>None\<close>, \<open>None\<close>, \<open>Absent\<close>, \<open>null\<close>.

  Three kinds of value are left out, because the handler would store them unchanged in
  a field that holds a string in this model: a truthy \<open>Err\<close> that is not a string, a
  \<open>query_id\<close> that is not a string, and a snippet that is neither \<open>null\<close> nor of the
  schema. So is an \<open>Ok\<close> that \<open>+\<close> cannot convert to a string (an object whose own
  \<open>toString\<close> is not callable).
\<close>

datatype snippets_value = Absent | NotArray | Array "NLSnippet option list"

record Loose =
  Err_read :: "string option"
  query_id_read :: "string option"
  snippets_read :: snippets_value
  Ok_appended :: string

text \<open>
  \<open>ev.data\<close> is a string, and the handler tells these kinds of it apart: the literal
  \<open>[DONE]\<close>; a string that \<open>JSON.parse\<close> accepts, given by the value it parses to (an
  object of the schema, \<open>null\<close>, or another value); a string on which \<open>JSON.parse\<close>
  throws.
\<close>

datatype data = DONE | JSON Answer | Unparsable | Null | Other Loose

datatype exn = SyntaxError | TypeError

text \<open>
  Modelled from the spec: the type \<open>ConversationMessage\<close> of a turn is declared in
  \<open>types/general\<close>, outside the sources at hand. Its fields are the ones the component
  writes, as the spec lists them (\<open>author\<close>, \<open>text\<close>, \<open>isLoading\<close>, \<open>error\<close>, \<open>snippets\<close>).
  \<open>author\<close> is optional only because the spread of \<open>prev.slice(-1)[0]\<close> over an empty
  array yields an object without it.
\<close>

record ConversationMessage =
  author :: "Author option"
  text' :: "string option"
  isLoading :: bool
  error :: "string option"
  snippets :: "Snippet list option"

text \<open>
  An \<open>EventSource\<close> object together with the counter \<open>i\<close> that its handlers close over
  (\<open>let i = 0\<close> in the call of \<open>makeSearch\<close> that constructed it). \<open>closed\<close> is
  \<open>readyState = CLOSED\<close>.
\<close>

record EventSource =
  url :: string
  i :: nat
  closed :: bool

text \<open>
  The component's state. Every object literal of the source allocates a fresh reference
  (\<open>next_ref\<close>), so that a turn in \<open>conversation\<close> is a pair of its identity and its
  fields: the effect on \<open>lastServerResponse\<close> compares identities.
  \<open>sources\<close> holds every \<open>EventSource\<close> constructed so far, \<open>prevEventSource\<close> the index
  of the one the module-level variable refers to, and \<open>lastServerResponse_dep\<close> the
  dependency the effect saw at the last render.
\<close>

record state =
  apiUrl :: string
  deviceId :: string
  isLoading :: bool
  conversation :: "(nat \<times> ConversationMessage) list"
  searchId :: "string option"
  currentlyViewedSnippets :: int
  prevEventSource :: "nat option"
  sources :: "EventSource list"
  lastServerResponse_dep :: "nat option"
  next_ref :: nat

text \<open>
  What an exception does to the page. Thrown by a handler, it is caught by nothing and
  the component keeps the state it has at that moment. Thrown by an updater, it
  surfaces while React renders, and the error boundary around the component
  (\<open>Sentry.withErrorBoundary\<close>) replaces the page by its fallback.
\<close>

datatype fault = Uncaught exn state | Crashed exn

subsection \<open>JavaScript helpers\<close>

text \<open>\<open>String.prototype.replace\<close> with a string pattern: the first occurrence only.\<close>

fun replace :: "string \<Rightarrow> string \<Rightarrow> string \<Rightarrow> string" where
  "replace pat rep [] = (if pat = [] then rep else [])"
| "replace pat rep (c # cs) =
     (if take (length pat) (c # cs) = pat then rep @ drop (length pat) (c # cs)
      else c # replace pat rep cs)"

text \<open>Truthiness of an optional string: \<open>undefined\<close> and the empty string are falsy.\<close>

definition truthy :: "string option \<Rightarrow> bool" where
  "truthy x = (case x of None \<Rightarrow> False | Some t \<Rightarrow> t \<noteq> [])"

text \<open>\<open>x || ''\<close> on an optional string.\<close>

definition or_empty :: "string option \<Rightarrow> string" where
  "or_empty x = (case x of None \<Rightarrow> [] | Some t \<Rightarrow> t)"

text \<open>The string that \<open>+\<close> appends for an optional string operand.\<close>

definition to_string :: "string option \<Rightarrow> string" where
  "to_string x = (case x of None \<Rightarrow> ''undefined'' | Some t \<Rightarrow> t)"

text \<open>
  \<open>{...prev.slice(-1)[0]}\<close>: the fields of the last element, none for an empty array
  (every caller then sets \<open>isLoading\<close>).
\<close>

definition spread_last :: "(nat \<times> ConversationMessage) list \<Rightarrow> ConversationMessage" where
  "spread_last prev =
     (if prev = []
      then \<lparr>author = None, text' = None, ConversationMessage.isLoading = False,
             error = None, snippets = None\<rparr>
      else snd (last prev))"

subsection \<open>The updaters passed to \<open>setConversation\<close>\<close>

text \<open>Each takes the reference of the object it allocates and the previous array.\<close>

definition mapSnippet :: "NLSnippet \<Rightarrow> Snippet" where
  "mapSnippet item =
     \<lparr>path = relative_path item, code = NLSnippet.text' item, repoName = repo_name item,
      lang = NLSnippet.lang item, line = start_line item\<rparr>"

definition placeholder :: ConversationMessage where
  "placeholder = \<lparr>author = Some Server, text' = None, ConversationMessage.isLoading = True,
     error = None, snippets = None\<rparr>"

definition user_turn :: "string \<Rightarrow> ConversationMessage" where
  "user_turn message = \<lparr>author = Some User, text' = Some message,
     ConversationMessage.isLoading = False, error = None, snippets = None\<rparr>"

definition error_turn :: ConversationMessage where
  "error_turn = \<lparr>author = Some Server, text' = None, ConversationMessage.isLoading = False,
     error = Some ''Sorry, something went wrong'', snippets = None\<rparr>"

definition done_update ::
  "nat \<Rightarrow> (nat \<times> ConversationMessage) list \<Rightarrow> (nat \<times> ConversationMessage) list" where
  "done_update r prev =
     butlast prev @ [(r, (spread_last prev)\<lparr>ConversationMessage.isLoading := False\<rparr>)]"

definition err_update ::
  "Answer \<Rightarrow> nat \<Rightarrow> (nat \<times> ConversationMessage) list \<Rightarrow> (nat \<times> ConversationMessage) list" where
  "err_update newData r prev =
     butlast prev @
     [(r, (spread_last prev)\<lparr>ConversationMessage.isLoading := False, error := Err newData\<rparr>)]"

definition header_update ::
  "Answer \<Rightarrow> nat \<Rightarrow> (nat \<times> ConversationMessage) list \<Rightarrow> (nat \<times> ConversationMessage) list" where
  "header_update newData r prev =
     butlast prev @
     [(r, (spread_last prev)\<lparr>ConversationMessage.isLoading := True,
        snippets := Some (case Answer.snippets newData of
                            None \<Rightarrow> []
                          | Some items \<Rightarrow> map mapSnippet items)\<rparr>)]"

text \<open>The token updater reads \<open>prev.slice(-1)[0].text\<close>, which throws on an empty array.\<close>

definition token_update ::
  "Answer \<Rightarrow> nat \<Rightarrow> (nat \<times> ConversationMessage) list
     \<Rightarrow> exn + (nat \<times> ConversationMessage) list" where
  "token_update newData r prev =
     (if prev = [] then Inl TypeError
      else Inr (butlast prev @
             [(r, (snd (last prev))\<lparr>text' :=
                    Some (or_empty (text' (snd (last prev))) @ to_string (Ok newData))\<rparr>)]))"

subsection \<open>State changes\<close>

definition setConversation ::
  "(nat \<Rightarrow> (nat \<times> ConversationMessage) list \<Rightarrow> (nat \<times> ConversationMessage) list)
     \<Rightarrow> state \<Rightarrow> state" where
  "setConversation f s =
     s\<lparr>conversation := f (next_ref s) (conversation s), next_ref := Suc (next_ref s)\<rparr>"

definition close :: "nat \<Rightarrow> state \<Rightarrow> state" where
  "close k s = s\<lparr>sources := (sources s)[k := (sources s ! k)\<lparr>closed := True\<rparr>]\<rparr>"

definition incr_i :: "nat \<Rightarrow> state \<Rightarrow> state" where
  "incr_i k s = s\<lparr>sources := (sources s)[k := (sources s ! k)\<lparr>i := Suc (i (sources s ! k))\<rparr>]\<rparr>"

text \<open>\<open>prevEventSource?.close()\<close>\<close>

definition close_prev :: "state \<Rightarrow> state" where
  "close_prev s = (case prevEventSource s of None \<Rightarrow> s | Some p \<Rightarrow> close p s)"

text \<open>\<open>new EventSource(...)\<close> and the assignment to \<open>prevEventSource\<close>.\<close>

definition open_source :: "string \<Rightarrow> state \<Rightarrow> state" where
  "open_source question s =
     s\<lparr>sources := sources s @
          [\<lparr>url = replace ''https:'' [] (apiUrl s) @ ''/answer?q='' @ question @
                  ''&user_id='' @ deviceId s,
            i = 0, closed = False\<rparr>],
       prevEventSource := Some (length (sources s))\<rparr>"

definition makeSearch :: "string \<Rightarrow> state \<Rightarrow> state" where
  "makeSearch question s =
     setConversation (\<lambda>r prev. prev @ [(r, placeholder)])
       (open_source question (close_prev (s\<lparr>isLoading := True\<rparr>)))"

text \<open>
  \<open>snippets?.map(...)\<close> on a value that is not an array of snippets: \<open>undefined\<close> for
  \<open>undefined\<close> and \<open>null\<close>; otherwise the call throws when there is no callable \<open>map\<close>,
  and the callback throws on reading \<open>relative_path\<close> of a \<open>null\<close> item.
\<close>

fun map_items :: "NLSnippet option list \<Rightarrow> exn + NLSnippet list" where
  "map_items [] = Inr []"
| "map_items (None # items) = Inl TypeError"
| "map_items (Some item # items) =
     (case map_items items of Inl e \<Rightarrow> Inl e | Inr rest \<Rightarrow> Inr (item # rest))"

fun snippets_of :: "snippets_value \<Rightarrow> exn + NLSnippet list option" where
  "snippets_of Absent = Inr None"
| "snippets_of NotArray = Inl TypeError"
| "snippets_of (Array items) =
     (case map_items items of Inl e \<Rightarrow> Inl e | Inr snips \<Rightarrow> Inr (Some snips))"

text \<open>
  The object of the schema that gives the handler the same reads as a value that is not
  \<open>null\<close>, once its snippets are known to map.
\<close>

definition same_reads :: "Loose \<Rightarrow> NLSnippet list option \<Rightarrow> Answer" where
  "same_reads v snips =
     \<lparr>Err = Err_read v, query_id = query_id_read v, snippets = snips,
      Ok = Some (Ok_appended v)\<rparr>"

text \<open>
  \<open>eventSource.onmessage\<close> of the source with index \<open>k\<close>. \<open>JSON.parse\<close> and the read of
  \<open>newData.Err\<close> (first event only) throw in the handler, before any state is set; the
  updaters run, and throw, while React renders.
\<close>

fun onmessage :: "nat \<Rightarrow> data \<Rightarrow> state \<Rightarrow> fault + state" where
  "onmessage k DONE s =
     Inr ((setConversation done_update (close k s))\<lparr>prevEventSource := None\<rparr>)"
| "onmessage k Unparsable s = Inl (Uncaught SyntaxError s)"
| "onmessage k (JSON newData) s =
     (if i (sources s ! k) = 0 then
        (if truthy (Err newData) then
           Inr (incr_i k (setConversation (err_update newData) (s\<lparr>isLoading := False\<rparr>)))
         else
           Inr (incr_i k (setConversation (header_update newData)
                  (s\<lparr>isLoading := False, searchId := query_id newData\<rparr>))))
      else
        (case token_update newData (next_ref s) (conversation s) of
           Inl e \<Rightarrow> Inl (Crashed e)
         | Inr c \<Rightarrow> Inr (incr_i k (s\<lparr>conversation := c, next_ref := Suc (next_ref s)\<rparr>))))"
| "onmessage k Null s =
     (if i (sources s ! k) = 0 then Inl (Uncaught TypeError s) else Inl (Crashed TypeError))"
| "onmessage k (Other v) s =
     (if i (sources s ! k) = 0 then
        (if truthy (Err_read v) then
           Inr (incr_i k (setConversation (err_update (same_reads v None))
                  (s\<lparr>isLoading := False\<rparr>)))
         else
           (case snippets_of (snippets_read v) of
              Inl e \<Rightarrow> Inl (Crashed e)
            | Inr snips \<Rightarrow>
                Inr (incr_i k (setConversation (header_update (same_reads v snips))
                       (s\<lparr>isLoading := False, searchId := query_id_read v\<rparr>)))))
      else
        (case token_update (same_reads v None) (next_ref s) (conversation s) of
           Inl e \<Rightarrow> Inl (Crashed e)
         | Inr c \<Rightarrow> Inr (incr_i k (s\<lparr>conversation := c, next_ref := Suc (next_ref s)\<rparr>))))"

text \<open>\<open>eventSource.onerror\<close>\<close>

definition onerror :: "state \<Rightarrow> state" where
  "onerror s = setConversation (\<lambda>r prev. prev @ [(r, error_turn)]) (s\<lparr>isLoading := False\<rparr>)"

definition handleNewMessage :: "string \<Rightarrow> state \<Rightarrow> state" where
  "handleNewMessage message s =
     makeSearch message (setConversation (\<lambda>r prev. prev @ [(r, user_turn message)]) s)"

subsection \<open>Derived state and the effect on it\<close>

definition lastServerResponse ::
  "(nat \<times> ConversationMessage) list \<Rightarrow> (nat \<times> ConversationMessage) option" where
  "lastServerResponse c =
     (let serverResponses = filter (\<lambda>m. author (snd m) = Some Server) c
      in if serverResponses = [] then None else Some (last serverResponses))"

text \<open>
  A render followed by its effects: when the identity of \<open>lastServerResponse\<close> differs from
  the one seen at the previous render, \<open>setCurrentlyViewedSnippets(conversation.length - 1)\<close>
  runs.
\<close>

definition render :: "state \<Rightarrow> state" where
  "render s =
     (let l = map_option fst (lastServerResponse (conversation s))
      in if l \<noteq> lastServerResponse_dep s
         then s\<lparr>currentlyViewedSnippets := int (length (conversation s)) - 1,
                lastServerResponse_dep := l\<rparr>
         else s)"

subsection \<open>The component's life\<close>

text \<open>The values of the \<open>useState\<close> calls at the first render.\<close>

definition initial :: "string \<Rightarrow> string \<Rightarrow> string \<Rightarrow> state" where
  "initial api dev query =
     \<lparr>apiUrl = api, deviceId = dev, isLoading = True,
      conversation = [(0, user_turn query)], searchId = Some [],
      currentlyViewedSnippets = 0, prevEventSource = None, sources = [],
      lastServerResponse_dep = None, next_ref = 1\<rparr>"

text \<open>
  Mounting runs both effects on the first render (\<open>makeSearch(query)\<close>, then
  \<open>setCurrentlyViewedSnippets(conversation.length - 1)\<close> with the first render's array)
  and renders again.
\<close>

definition mount :: "string \<Rightarrow> string \<Rightarrow> string \<Rightarrow> state" where
  "mount api dev query =
     render ((makeSearch query (initial api dev query))
       \<lparr>currentlyViewedSnippets := int (length (conversation (initial api dev query))) - 1\<rparr>)"

text \<open>
  What can happen to a mounted component: the user submits a message, the \<open>query\<close> prop
  changes, a source delivers a message or an error, the user picks a turn to view.
  A closed \<open>EventSource\<close> dispatches nothing. An error event comes either while the browser
  reconnects (the source stays open) or after the browser has failed the connection
  (\<open>readyState\<close> is already \<open>CLOSED\<close> when the handler runs); the flag says which.
\<close>

datatype action =
    NewMessage string
  | QueryChanged string
  | Message nat data
  | Error nat bool
  | ViewSnippets int

definition is_open :: "nat \<Rightarrow> state \<Rightarrow> bool" where
  "is_open k s = (k < length (sources s) \<and> \<not> closed (sources s ! k))"

fun step :: "action \<Rightarrow> state \<Rightarrow> fault + state" where
  "step (NewMessage message) s = Inr (render (handleNewMessage message s))"
| "step (QueryChanged query) s = Inr (render (makeSearch query s))"
| "step (Message k d) s =
     (if is_open k s
      then (case onmessage k d s of Inl e \<Rightarrow> Inl e | Inr s' \<Rightarrow> Inr (render s'))
      else Inr s)"
| "step (Error k failed) s =
     (if is_open k s then Inr (render (onerror (if failed then close k s else s)))
      else Inr s)"
| "step (ViewSnippets n) s = Inr (render (s\<lparr>currentlyViewedSnippets := n\<rparr>))"

text \<open>A sequence of actions, up to the first exception.\<close>

fun run :: "action list \<Rightarrow> state \<Rightarrow> fault + state" where
  "run [] s = Inr s"
| "run (a # as) s = (case step a s of Inl e \<Rightarrow> Inl e | Inr s' \<Rightarrow> run as s')"

inductive reachable :: "state \<Rightarrow> bool" where
  reachable_mount: "reachable (mount api dev query)"
| reachable_step: "reachable s \<Longrightarrow> step a s = Inr s' \<Longrightarrow> reachable s'"

subsection \<open>Invariants of the reachable states\<close>

text \<open>
  Only the source that \<open>prevEventSource\<close> refers to can be open; the conversation ends
  with a server turn and begins with a user turn; the dependency recorded by the last
  render is the identity of the current \<open>lastServerResponse\<close>.
\<close>

definition at_most_one_open :: "state \<Rightarrow> bool" where
  "at_most_one_open s = (\<forall>k. is_open k s \<longrightarrow> prevEventSource s = Some k)"

definition ends_with_server :: "state \<Rightarrow> bool" where
  "ends_with_server s =
     (conversation s \<noteq> [] \<and> author (snd (last (conversation s))) = Some Server)"

definition starts_with_user :: "state \<Rightarrow> bool" where
  "starts_with_user s =
     (2 \<le> length (conversation s) \<and> author (snd (hd (conversation s))) = Some User)"

definition dep_current :: "state \<Rightarrow> bool" where
  "dep_current s =
     (lastServerResponse_dep s = map_option fst (lastServerResponse (conversation s)))"

text \<open>References are allocated in increasing order: those in use are below \<open>next_ref\<close>.\<close>

definition refs_fresh :: "state \<Rightarrow> bool" where
  "refs_fresh s = list_all (\<lambda>x. fst x < next_ref s) (conversation s)"

text \<open>The actions that start a session, as opposed to those a running page receives.\<close>

fun starts_session :: "action \<Rightarrow> bool" where
  "starts_session (NewMessage message) = True"
| "starts_session (QueryChanged query) = True"
| "starts_session a = False"

section \<open>Basic facts\<close>

text \<open>What each state change does to each component of the state.\<close>

lemma close_fields [simp]:
  "apiUrl (close k s) = apiUrl s"
  "deviceId (close k s) = deviceId s"
  "isLoading (close k s) = isLoading s"
  "conversation (close k s) = conversation s"
  "searchId (close k s) = searchId s"
  "currentlyViewedSnippets (close k s) = currentlyViewedSnippets s"
  "prevEventSource (close k s) = prevEventSource s"
  "lastServerResponse_dep (close k s) = lastServerResponse_dep s"
  "next_ref (close k s) = next_ref s"
  "length (sources (close k s)) = length (sources s)"
  by (simp_all add: close_def)

lemma close_nth [simp]:
  "closed (sources (close k s) ! j) = (j = k \<and> k < length (sources s) \<or> closed (sources s ! j))"
  "i (sources (close k s) ! j) = i (sources s ! j)"
  "url (sources (close k s) ! j) = url (sources s ! j)"
  unfolding close_def
  by (cases "length (sources s) \<le> k"; auto simp add: list_update_beyond nth_list_update)+

lemma incr_i_fields [simp]:
  "apiUrl (incr_i k s) = apiUrl s"
  "deviceId (incr_i k s) = deviceId s"
  "isLoading (incr_i k s) = isLoading s"
  "conversation (incr_i k s) = conversation s"
  "searchId (incr_i k s) = searchId s"
  "currentlyViewedSnippets (incr_i k s) = currentlyViewedSnippets s"
  "prevEventSource (incr_i k s) = prevEventSource s"
  "lastServerResponse_dep (incr_i k s) = lastServerResponse_dep s"
  "next_ref (incr_i k s) = next_ref s"
  "length (sources (incr_i k s)) = length (sources s)"
  by (simp_all add: incr_i_def)

lemma incr_i_nth [simp]:
  "closed (sources (incr_i k s) ! j) = closed (sources s ! j)"
  "i (sources (incr_i k s) ! j) =
     (if j = k \<and> k < length (sources s) then Suc (i (sources s ! j)) else i (sources s ! j))"
  "url (sources (incr_i k s) ! j) = url (sources s ! j)"
  unfolding incr_i_def
  by (cases "length (sources s) \<le> k"; simp add: list_update_beyond nth_list_update)+

lemma setConversation_fields [simp]:
  "apiUrl (setConversation f s) = apiUrl s"
  "deviceId (setConversation f s) = deviceId s"
  "isLoading (setConversation f s) = isLoading s"
  "conversation (setConversation f s) = f (next_ref s) (conversation s)"
  "searchId (setConversation f s) = searchId s"
  "currentlyViewedSnippets (setConversation f s) = currentlyViewedSnippets s"
  "prevEventSource (setConversation f s) = prevEventSource s"
  "lastServerResponse_dep (setConversation f s) = lastServerResponse_dep s"
  "next_ref (setConversation f s) = Suc (next_ref s)"
  "sources (setConversation f s) = sources s"
  by (simp_all add: setConversation_def)

lemma close_prev_fields [simp]:
  "apiUrl (close_prev s) = apiUrl s"
  "deviceId (close_prev s) = deviceId s"
  "isLoading (close_prev s) = isLoading s"
  "conversation (close_prev s) = conversation s"
  "searchId (close_prev s) = searchId s"
  "currentlyViewedSnippets (close_prev s) = currentlyViewedSnippets s"
  "prevEventSource (close_prev s) = prevEventSource s"
  "lastServerResponse_dep (close_prev s) = lastServerResponse_dep s"
  "next_ref (close_prev s) = next_ref s"
  "length (sources (close_prev s)) = length (sources s)"
  by (simp_all add: close_prev_def split: option.split)

lemma close_prev_nth [simp]:
  "closed (sources (close_prev s) ! j) =
     (prevEventSource s = Some j \<and> j < length (sources s) \<or> closed (sources s ! j))"
  "i (sources (close_prev s) ! j) = i (sources s ! j)"
  "url (sources (close_prev s) ! j) = url (sources s ! j)"
  by (auto simp add: close_prev_def split: option.split)

lemma open_source_fields [simp]:
  "apiUrl (open_source q s) = apiUrl s"
  "deviceId (open_source q s) = deviceId s"
  "isLoading (open_source q s) = isLoading s"
  "conversation (open_source q s) = conversation s"
  "searchId (open_source q s) = searchId s"
  "currentlyViewedSnippets (open_source q s) = currentlyViewedSnippets s"
  "prevEventSource (open_source q s) = Some (length (sources s))"
  "lastServerResponse_dep (open_source q s) = lastServerResponse_dep s"
  "next_ref (open_source q s) = next_ref s"
  "length (sources (open_source q s)) = Suc (length (sources s))"
  by (simp_all add: open_source_def)

lemma open_source_nth [simp]:
  "j < length (sources s) \<Longrightarrow> sources (open_source q s) ! j = sources s ! j"
  "j = length (sources s) \<Longrightarrow> closed (sources (open_source q s) ! j) = False"
  "j = length (sources s) \<Longrightarrow> i (sources (open_source q s) ! j) = 0"
  by (simp_all add: open_source_def nth_append)

lemma render_fields [simp]:
  "apiUrl (render s) = apiUrl s"
  "deviceId (render s) = deviceId s"
  "isLoading (render s) = isLoading s"
  "conversation (render s) = conversation s"
  "searchId (render s) = searchId s"
  "prevEventSource (render s) = prevEventSource s"
  "sources (render s) = sources s"
  "next_ref (render s) = next_ref s"
  by (simp_all add: render_def Let_def)

lemma makeSearch_fields [simp]:
  "apiUrl (makeSearch q s) = apiUrl s"
  "deviceId (makeSearch q s) = deviceId s"
  "isLoading (makeSearch q s) = True"
  "conversation (makeSearch q s) = conversation s @ [(next_ref s, placeholder)]"
  "searchId (makeSearch q s) = searchId s"
  "currentlyViewedSnippets (makeSearch q s) = currentlyViewedSnippets s"
  "prevEventSource (makeSearch q s) = Some (length (sources s))"
  "lastServerResponse_dep (makeSearch q s) = lastServerResponse_dep s"
  "next_ref (makeSearch q s) = Suc (next_ref s)"
  "length (sources (makeSearch q s)) = Suc (length (sources s))"
  by (simp_all add: makeSearch_def)

lemma makeSearch_nth [simp]:
  "j < length (sources s) \<Longrightarrow> closed (sources (makeSearch q s) ! j) =
     (prevEventSource s = Some j \<or> closed (sources s ! j))"
  "j < length (sources s) \<Longrightarrow> i (sources (makeSearch q s) ! j) = i (sources s ! j)"
  "j = length (sources s) \<Longrightarrow> closed (sources (makeSearch q s) ! j) = False"
  "j = length (sources s) \<Longrightarrow> i (sources (makeSearch q s) ! j) = 0"
  by (simp_all add: makeSearch_def)

lemma onerror_fields [simp]:
  "apiUrl (onerror s) = apiUrl s"
  "deviceId (onerror s) = deviceId s"
  "isLoading (onerror s) = False"
  "conversation (onerror s) = conversation s @ [(next_ref s, error_turn)]"
  "searchId (onerror s) = searchId s"
  "currentlyViewedSnippets (onerror s) = currentlyViewedSnippets s"
  "prevEventSource (onerror s) = prevEventSource s"
  "lastServerResponse_dep (onerror s) = lastServerResponse_dep s"
  "next_ref (onerror s) = Suc (next_ref s)"
  "sources (onerror s) = sources s"
  by (simp_all add: onerror_def)

lemma handleNewMessage_fields [simp]:
  "apiUrl (handleNewMessage m s) = apiUrl s"
  "deviceId (handleNewMessage m s) = deviceId s"
  "isLoading (handleNewMessage m s) = True"
  "conversation (handleNewMessage m s) =
     conversation s @ [(next_ref s, user_turn m), (Suc (next_ref s), placeholder)]"
  "searchId (handleNewMessage m s) = searchId s"
  "currentlyViewedSnippets (handleNewMessage m s) = currentlyViewedSnippets s"
  "prevEventSource (handleNewMessage m s) = Some (length (sources s))"
  "lastServerResponse_dep (handleNewMessage m s) = lastServerResponse_dep s"
  "next_ref (handleNewMessage m s) = Suc (Suc (next_ref s))"
  "length (sources (handleNewMessage m s)) = Suc (length (sources s))"
  by (simp_all add: handleNewMessage_def)

lemma handleNewMessage_nth [simp]:
  "j < length (sources s) \<Longrightarrow> closed (sources (handleNewMessage m s) ! j) =
     (prevEventSource s = Some j \<or> closed (sources s ! j))"
  "j < length (sources s) \<Longrightarrow> i (sources (handleNewMessage m s) ! j) = i (sources s ! j)"
  "j = length (sources s) \<Longrightarrow> closed (sources (handleNewMessage m s) ! j) = False"
  "j = length (sources s) \<Longrightarrow> i (sources (handleNewMessage m s) ! j) = 0"
  by (simp_all add: handleNewMessage_def)

lemma render_view [simp]:
  "lastServerResponse_dep (render s) = map_option fst (lastServerResponse (conversation s))"
  "currentlyViewedSnippets (render s) =
     (if map_option fst (lastServerResponse (conversation s)) \<noteq> lastServerResponse_dep s
      then int (length (conversation s)) - 1 else currentlyViewedSnippets s)"
  by (simp_all add: render_def Let_def)

lemmas update_defs =
  done_update_def err_update_def header_update_def token_update_def spread_last_def
  placeholder_def user_turn_def error_turn_def truthy_def or_empty_def to_string_def

section \<open>Invariants\<close>

lemma is_open_simps [simp]:
  "is_open j (close k s) = (is_open j s \<and> j \<noteq> k)"
  "is_open j (incr_i k s) = is_open j s"
  "is_open j (setConversation f s) = is_open j s"
  "is_open j (render s) = is_open j s"
  "is_open j (onerror s) = is_open j s"
  "is_open j (close_prev s) = (is_open j s \<and> prevEventSource s \<noteq> Some j)"
  "is_open j (makeSearch q s) =
     (j = length (sources s) \<or> is_open j s \<and> prevEventSource s \<noteq> Some j)"
  "is_open j (handleNewMessage m s) =
     (j = length (sources s) \<or> is_open j s \<and> prevEventSource s \<noteq> Some j)"
  by (auto simp add: is_open_def)

lemma is_open_update [simp]:
  "is_open j (s\<lparr>isLoading := b\<rparr>) = is_open j s"
  "is_open j (s\<lparr>searchId := q\<rparr>) = is_open j s"
  "is_open j (s\<lparr>prevEventSource := p\<rparr>) = is_open j s"
  "is_open j (s\<lparr>currentlyViewedSnippets := n\<rparr>) = is_open j s"
  "is_open j (s\<lparr>conversation := c\<rparr>) = is_open j s"
  "is_open j (s\<lparr>next_ref := r\<rparr>) = is_open j s"
  by (simp_all add: is_open_def)

lemma onmessage_is_open:
  "onmessage k d s = Inr t \<Longrightarrow> is_open j t = (is_open j s \<and> (d = DONE \<longrightarrow> j \<noteq> k))"
  by (cases d) (auto split: if_splits sum.splits)

lemma onmessage_prevEventSource:
  "onmessage k d s = Inr t \<Longrightarrow>
     prevEventSource t = (if d = DONE then None else prevEventSource s)"
  by (cases d) (auto split: if_splits sum.splits)

lemma at_most_one_open_step:
  assumes "at_most_one_open s" and "step a s = Inr t"
  shows "at_most_one_open t"
proof (cases a)
  case (NewMessage m)
  with assms show ?thesis by (auto simp add: at_most_one_open_def)
next
  case (QueryChanged q)
  with assms show ?thesis by (auto simp add: at_most_one_open_def)
next
  case (Message k d)
  show ?thesis
  proof (cases "is_open k s")
    case True
    with assms Message obtain u where u: "onmessage k d s = Inr u" and t: "t = render u"
      by (auto split: sum.splits)
    from assms(1) True have "prevEventSource s = Some k"
      by (simp add: at_most_one_open_def)
    with assms(1) onmessage_is_open [OF u] onmessage_prevEventSource [OF u] t
    show ?thesis
      by (auto simp add: at_most_one_open_def)
  next
    case False
    with assms Message show ?thesis by simp
  qed
next
  case (Error k failed)
  with assms show ?thesis by (auto simp add: at_most_one_open_def split: if_splits)
next
  case (ViewSnippets n)
  with assms show ?thesis by (auto simp add: at_most_one_open_def)
qed

lemma onmessage_conversation:
  assumes "onmessage k d s = Inr t"
  shows "\<exists>m. conversation t = butlast (conversation s) @ [(next_ref s, m)]
           \<and> author m = author (spread_last (conversation s))"
  using assms
  by (cases d) (auto simp add: update_defs split: if_splits sum.splits)

lemma step_conversation:
  assumes "step a s = Inr t" and ne: "conversation s \<noteq> []"
  shows "conversation t = conversation s
       \<or> (\<exists>xs m. conversation t = conversation s @ xs @ [m] \<and> author (snd m) = Some Server)
       \<or> (conversation s \<noteq> [] \<and>
          (\<exists>m. conversation t = butlast (conversation s) @ [m]
             \<and> author (snd m) = author (snd (last (conversation s)))))"
proof (cases a)
  case (NewMessage msg)
  with assms have "conversation t =
      conversation s @ [(next_ref s, user_turn msg)] @ [(Suc (next_ref s), placeholder)]"
    by auto
  then show ?thesis by (auto simp add: placeholder_def)
next
  case (QueryChanged q)
  with assms have "conversation t = conversation s @ [] @ [(next_ref s, placeholder)]"
    by auto
  then show ?thesis by (auto simp add: placeholder_def)
next
  case (Message k d)
  show ?thesis
  proof (cases "is_open k s")
    case True
    with assms Message obtain u where u: "onmessage k d s = Inr u" and t: "t = render u"
      by (auto split: sum.splits)
    from onmessage_conversation [OF u] t obtain m where
      m: "conversation t = butlast (conversation s) @ [(next_ref s, m)]"
         "author m = author (spread_last (conversation s))"
      by auto
    with ne show ?thesis by (auto simp add: spread_last_def)
  next
    case False
    with assms Message show ?thesis by simp
  qed
next
  case (Error k failed)
  with assms have "conversation t = conversation s \<or>
      conversation t = conversation s @ [] @ [(next_ref s, error_turn)]"
    by (auto split: if_splits)
  then show ?thesis by (auto simp add: error_turn_def)
next
  case (ViewSnippets n)
  with assms show ?thesis by auto
qed


lemma step_shape:
  assumes "step a s = Inr t"
  shows "(\<exists>xs. conversation t = conversation s @ xs)
       \<or> (\<exists>m. conversation s \<noteq> [] \<and> conversation t = butlast (conversation s) @ [m])"
proof (cases "conversation s = []")
  case True
  then show ?thesis by simp
next
  case False
  from step_conversation [OF assms False] show ?thesis
    by (metis append_Nil2 append_assoc)
qed

lemma ends_with_server_step:
  assumes "ends_with_server s" and "step a s = Inr t"
  shows "ends_with_server t"
  using assms(1) step_conversation [OF assms(2)]
  by (auto simp add: ends_with_server_def)

lemma starts_with_user_step:
  assumes "starts_with_user s" and "step a s = Inr t"
  shows "starts_with_user t"
proof -
  from assms(1) have ne: "conversation s \<noteq> []" and l: "2 \<le> length (conversation s)"
    and h: "author (snd (hd (conversation s))) = Some User"
    by (auto simp add: starts_with_user_def)
  from l have hb: "butlast (conversation s) \<noteq> []"
    by (cases "conversation s" rule: rev_cases) auto
  then have "hd (butlast (conversation s)) = hd (conversation s)"
    by (cases "conversation s") (auto split: if_splits)
  with step_conversation [OF assms(2) ne] ne l h hb show ?thesis
    by (auto simp add: starts_with_user_def)
qed

lemma dep_current_step:
  assumes "dep_current s" and "step a s = Inr t"
  shows "dep_current t"
  using assms
  by (cases a) (auto simp add: dep_current_def split: if_splits sum.splits)

lemma lastServerResponse_last:
  "c \<noteq> [] \<Longrightarrow> author (snd (last c)) = Some Server \<Longrightarrow> lastServerResponse c = Some (last c)"
  by (cases c rule: rev_cases) (simp_all add: lastServerResponse_def)

lemma mount_invariants:
  "at_most_one_open (mount api dev query)"
  "ends_with_server (mount api dev query)"
  "starts_with_user (mount api dev query)"
  "dep_current (mount api dev query)"
  by (auto simp add: mount_def initial_def at_most_one_open_def ends_with_server_def
        starts_with_user_def dep_current_def is_open_def placeholder_def user_turn_def)

lemma reachable_invariants:
  assumes "reachable s"
  shows "at_most_one_open s \<and> ends_with_server s \<and> starts_with_user s \<and> dep_current s"
  using assms
proof (induction rule: reachable.induct)
  case (reachable_mount api dev query)
  show ?case by (simp add: mount_invariants)
next
  case (reachable_step s a s')
  then show ?case
    by (blast intro: at_most_one_open_step ends_with_server_step starts_with_user_step
          dep_current_step)
qed

lemma reachable_run:
  "reachable s \<Longrightarrow> run as s = Inr t \<Longrightarrow> reachable t"
proof (induction as arbitrary: s)
  case Nil
  then show ?case by simp
next
  case (Cons a as)
  then show ?case
    by (auto split: sum.splits intro: reachable_step)
qed

lemma onmessage_sources_length:
  "onmessage k d s = Inr t \<Longrightarrow> length (sources t) = length (sources s)"
  by (cases d) (auto split: if_splits sum.splits)

text \<open>The error and token updaters read \<open>Err\<close> and \<open>Ok\<close> only.\<close>

lemma same_reads_fields [simp]:
  "Err (same_reads v snips) = Err_read v"
  "query_id (same_reads v snips) = query_id_read v"
  "Answer.snippets (same_reads v snips) = snips"
  "Ok (same_reads v snips) = Some (Ok_appended v)"
  by (simp_all add: same_reads_def)


lemma map_items_throws:
  "map_items items = Inl e \<longleftrightarrow> e = TypeError \<and> None \<in> set items"
  by (induction items rule: map_items.induct) (auto split: sum.splits)

lemma map_items_returns:
  "map_items items = Inr snips \<Longrightarrow> None \<notin> set items"
  by (induction items arbitrary: snips rule: map_items.induct) (auto split: sum.splits)

lemma snippets_of_throws:
  "snippets_of x = Inl e \<longleftrightarrow>
     e = TypeError \<and> (x = NotArray \<or> (\<exists>items. x = Array items \<and> None \<in> set items))"
  by (cases x) (auto simp add: map_items_throws split: sum.splits dest: map_items_returns)

text \<open>
  The only exceptions: \<open>JSON.parse\<close> on an unparsable payload and the read of \<open>Err\<close> on
  a first payload \<open>null\<close>, both in the handler and with the state untouched; and, in an
  updater, the read of \<open>Ok\<close> on a later payload \<open>null\<close>, the mapping of snippets that
  are not an array of snippets, and the read of the last turn of an empty conversation.
\<close>

lemma onmessage_throws:
  "onmessage k d s = Inl f \<Longrightarrow>
     f = Uncaught SyntaxError s \<and> d = Unparsable
     \<or> f = Uncaught TypeError s \<and> d = Null \<and> i (sources s ! k) = 0
     \<or> f = Crashed TypeError \<and> d = Null \<and> i (sources s ! k) \<noteq> 0
     \<or> f = Crashed TypeError \<and> i (sources s ! k) = 0
         \<and> (\<exists>v. d = Other v \<and> \<not> truthy (Err_read v)
               \<and> (snippets_read v = NotArray
                    \<or> (\<exists>items. snippets_read v = Array items \<and> None \<in> set items)))
     \<or> f = Crashed TypeError \<and> i (sources s ! k) \<noteq> 0 \<and> conversation s = []
         \<and> d \<noteq> DONE"
  by (cases d)
    (auto simp add: token_update_def snippets_of_throws split: if_splits sum.splits)

lemma step_sources_length:
  "step a s = Inr t \<Longrightarrow> length (sources s) \<le> length (sources t)"
  by (cases a) (auto split: if_splits sum.splits dest: onmessage_sources_length)

lemma step_not_reopened:
  assumes "step a s = Inr t" and "j < length (sources s)" and "\<not> is_open j s"
  shows "\<not> is_open j t"
proof (cases a)
  case (Message k d)
  show ?thesis
  proof (cases "is_open k s")
    case True
    with assms Message obtain u where u: "onmessage k d s = Inr u" and t: "t = render u"
      by (auto split: sum.splits)
    with assms(3) onmessage_is_open [OF u] show ?thesis by simp
  next
    case False
    with assms Message show ?thesis by simp
  qed
qed (use assms in \<open>auto split: if_splits\<close>)

lemma run_not_reopened:
  "run as s = Inr t \<Longrightarrow> j < length (sources s) \<Longrightarrow> \<not> is_open j s \<Longrightarrow> \<not> is_open j t"
proof (induction as arbitrary: s)
  case Nil
  then show ?case by simp
next
  case (Cons a as)
  from Cons.prems(1) obtain u where u: "step a s = Inr u" and r: "run as u = Inr t"
    by (auto split: sum.splits)
  from step_sources_length [OF u] Cons.prems(2) have "j < length (sources u)" by simp
  moreover from step_not_reopened [OF u Cons.prems(2,3)] have "\<not> is_open j u" .
  ultimately show ?case using Cons.IH [OF r] by simp
qed

text \<open>In a reachable state no event of the schema makes anything throw.\<close>

lemma reachable_schema_event:
  assumes "reachable s" and "d = DONE \<or> d = JSON newData"
  shows "\<exists>t. step (Message k d) s = Inr t"
proof -
  from reachable_invariants [OF assms(1)] have "conversation s \<noteq> []"
    by (simp add: ends_with_server_def)
  with assms(2) show ?thesis
    by (auto simp add: token_update_def)
qed

lemma below_mono:
  "list_all (\<lambda>x. fst x < (n::nat)) c \<Longrightarrow> n \<le> n' \<Longrightarrow> list_all (\<lambda>x. fst x < n') c"
  by (induction c) simp_all

lemma below_butlast:
  "list_all (\<lambda>x. fst x < n) c \<Longrightarrow> list_all (\<lambda>x. fst x < n) (butlast c)"
  by (induction c) simp_all

lemma onmessage_refs_fresh:
  assumes "refs_fresh s" and "onmessage k d s = Inr u"
  shows "refs_fresh u"
proof -
  from onmessage_conversation [OF assms(2)] obtain m where
    c: "conversation u = butlast (conversation s) @ [(next_ref s, m)]" by blast
  have n: "next_ref u = Suc (next_ref s)"
    using assms(2) by (cases d) (auto split: if_splits sum.splits)
  from assms(1) have "list_all (\<lambda>x. fst x < Suc (next_ref s)) (butlast (conversation s))"
    by (simp add: refs_fresh_def below_butlast below_mono [of "next_ref s"])
  with c n show ?thesis
    by (simp add: refs_fresh_def)
qed

lemma refs_fresh_step:
  assumes "refs_fresh s" and "step a s = Inr t"
  shows "refs_fresh t"
proof -
  from assms(1) have s: "list_all (\<lambda>x. fst x < next_ref s) (conversation s)"
    by (simp add: refs_fresh_def)
  note up = below_mono [OF s, of "Suc (next_ref s)"] below_mono [OF s, of "Suc (Suc (next_ref s))"]
  show ?thesis
  proof (cases a)
    case (Message k d)
    show ?thesis
    proof (cases "is_open k s")
      case True
      with assms Message obtain u where u: "onmessage k d s = Inr u" and t: "t = render u"
        by (auto split: sum.splits)
      from onmessage_refs_fresh [OF assms(1) u] t show ?thesis
        by (simp add: refs_fresh_def)
    next
      case False
      with assms Message show ?thesis by simp
    qed
  qed (use assms s up in \<open>auto simp add: refs_fresh_def split: if_splits\<close>)
qed

lemma reachable_refs_fresh:
  "reachable s \<Longrightarrow> refs_fresh s"
proof (induction rule: reachable.induct)
  case (reachable_mount api dev query)
  show ?case
    by (simp add: refs_fresh_def mount_def initial_def)
next
  case (reachable_step s a s')
  then show ?case by (blast intro: refs_fresh_step)
qed

lemma onmessage_view:
  "onmessage k d s = Inr u \<Longrightarrow>
     currentlyViewedSnippets u = currentlyViewedSnippets s
     \<and> lastServerResponse_dep u = lastServerResponse_dep s"
  by (cases d) (auto split: if_splits sum.splits)

lemma step_view:
  assumes "dep_current s" and "step a s = Inr t"
  shows "currentlyViewedSnippets t =
     (if map_option fst (lastServerResponse (conversation t)) \<noteq>
         map_option fst (lastServerResponse (conversation s))
      then int (length (conversation t)) - 1
      else case a of ViewSnippets n \<Rightarrow> n | _ \<Rightarrow> currentlyViewedSnippets s)"
proof (cases a)
  case (Message k d)
  show ?thesis
  proof (cases "is_open k s")
    case True
    with assms Message obtain u where u: "onmessage k d s = Inr u" and t: "t = render u"
      by (auto split: sum.splits)
    with assms(1) onmessage_view [OF u] Message show ?thesis
      by (simp add: dep_current_def)
  next
    case False
    with assms Message show ?thesis by simp
  qed
qed (use assms in \<open>auto simp add: dep_current_def split: if_splits\<close>)

lemma quiet_step:
  assumes "\<forall>k. \<not> is_open k s" and "\<not> starts_session a"
  shows "\<exists>t. step a s = Inr t \<and> isLoading t = isLoading s
    \<and> conversation t = conversation s \<and> sources t = sources s"
  using assms by (cases a) simp_all

lemma quiet_run:
  assumes "\<forall>k. \<not> is_open k s" and "list_all (\<lambda>a. \<not> starts_session a) as"
  shows "\<exists>t. run as s = Inr t \<and> isLoading t = isLoading s
    \<and> conversation t = conversation s \<and> sources t = sources s"
  using assms
proof (induction as arbitrary: s)
  case Nil
  then show ?case by simp
next
  case (Cons a as)
  from Cons.prems quiet_step [of s a] obtain u where
    u: "step a s = Inr u" "isLoading u = isLoading s" "conversation u = conversation s"
       "sources u = sources s"
    by auto
  from u(4) Cons.prems(1) have "\<forall>k. \<not> is_open k u" by (simp add: is_open_def)
  with Cons.IH [of u] Cons.prems(2) u show ?case by auto
qed

lemma step_clears_loading:
  assumes "step a s = Inr t" and "isLoading s" and "\<not> isLoading t"
  shows "(\<exists>k d. a = Message k d \<and> d \<noteq> DONE \<and> is_open k s \<and> i (sources s ! k) = 0)
       \<or> (\<exists>k failed. a = Error k failed \<and> is_open k s)"
proof (cases a)
  case (Message k d)
  with assms show ?thesis
    by (cases d) (auto split: if_splits sum.splits)
qed (use assms in \<open>auto split: if_splits\<close>)

text \<open>The state once the component is mounted.\<close>

lemma mount_facts [simp]:
  "is_open k (mount api dev query) = (k = 0)"
  "i (sources (mount api dev query) ! 0) = 0"
  "conversation (mount api dev query) = [(0, user_turn query), (1, placeholder)]"
  "prevEventSource (mount api dev query) = Some 0"
  "isLoading (mount api dev query) = True"
  "next_ref (mount api dev query) = 2"
  "length (sources (mount api dev query)) = 1"
  by (auto simp add: mount_def initial_def is_open_def)

section \<open>A complete answer\<close>

text \<open>
  C1. A session is started (by a submitted message or by a new \<open>query\<close>), and its source
  then delivers the header \<open>{query_id: "q1", snippets: [s1, s2]}\<close>, the tokens
  \<open>{Ok: "Hello"}\<close> and \<open>{Ok: " world"}\<close>, and the sentinel \<open>[DONE]\<close>. No handler throws;
  the last turn of the resulting conversation is the server turn with \<open>isLoading\<close> false,
  the text \<open>Hello world\<close>, no error, and the two snippets with \<open>relative_path\<close>, \<open>text\<close>,
  \<open>repo_name\<close>, \<open>lang\<close>, \<open>start_line\<close> renamed to \<open>path\<close>, \<open>code\<close>, \<open>repoName\<close>, \<open>lang\<close>,
  \<open>line\<close>; the source is closed and \<open>prevEventSource\<close> is cleared.
\<close>

theorem header_tokens_done:
  "(\<exists>t. run [NewMessage q,
        Message (length (sources s))
          (JSON \<lparr>Err = None, query_id = Some ''q1'', snippets = Some [s1, s2], Ok = None\<rparr>),
        Message (length (sources s))
          (JSON \<lparr>Err = None, query_id = None, snippets = None, Ok = Some ''Hello''\<rparr>),
        Message (length (sources s))
          (JSON \<lparr>Err = None, query_id = None, snippets = None, Ok = Some '' world''\<rparr>),
        Message (length (sources s)) DONE] s = Inr t
     \<and> snd (last (conversation t)) =
         \<lparr>author = Some Server, text' = Some ''Hello world'',
          ConversationMessage.isLoading = False, error = None,
          snippets = Some
            [\<lparr>path = relative_path s1, code = NLSnippet.text' s1, repoName = repo_name s1,
              lang = NLSnippet.lang s1, line = start_line s1\<rparr>,
             \<lparr>path = relative_path s2, code = NLSnippet.text' s2, repoName = repo_name s2,
              lang = NLSnippet.lang s2, line = start_line s2\<rparr>]\<rparr>
     \<and> closed (sources t ! length (sources s)) \<and> prevEventSource t = None)
   \<and> (\<exists>t. run [QueryChanged q,
        Message (length (sources s))
          (JSON \<lparr>Err = None, query_id = Some ''q1'', snippets = Some [s1, s2], Ok = None\<rparr>),
        Message (length (sources s))
          (JSON \<lparr>Err = None, query_id = None, snippets = None, Ok = Some ''Hello''\<rparr>),
        Message (length (sources s))
          (JSON \<lparr>Err = None, query_id = None, snippets = None, Ok = Some '' world''\<rparr>),
        Message (length (sources s)) DONE] s = Inr t
     \<and> snd (last (conversation t)) =
         \<lparr>author = Some Server, text' = Some ''Hello world'',
          ConversationMessage.isLoading = False, error = None,
          snippets = Some
            [\<lparr>path = relative_path s1, code = NLSnippet.text' s1, repoName = repo_name s1,
              lang = NLSnippet.lang s1, line = start_line s1\<rparr>,
             \<lparr>path = relative_path s2, code = NLSnippet.text' s2, repoName = repo_name s2,
              lang = NLSnippet.lang s2, line = start_line s2\<rparr>]\<rparr>
     \<and> closed (sources t ! length (sources s)) \<and> prevEventSource t = None)"
  by (simp add: update_defs is_open_def mapSnippet_def)

section \<open>The first event of a session\<close>

text \<open>
  C6. The first event of a session (\<open>i = 0\<close>) parses to an object without \<open>Err\<close>.
  The handler does not throw; the loading flag of the page becomes false, \<open>searchId\<close>
  becomes the event's \<open>query_id\<close>, every turn but the last is kept, and the last turn
  keeps its fields except \<open>isLoading\<close>, now true, and \<open>snippets\<close>, now the event's
  snippets with \<open>relative_path\<close>, \<open>text\<close>, \<open>repo_name\<close>, \<open>lang\<close>, \<open>start_line\<close> renamed
  to \<open>path\<close>, \<open>code\<close>, \<open>repoName\<close>, \<open>lang\<close>, \<open>line\<close> (the empty array when the event has
  no snippets).
\<close>

theorem header_without_Err:
  assumes "is_open k s" and "i (sources s ! k) = 0" and "Err newData = None"
    and "conversation s \<noteq> []"
  shows "\<exists>t. step (Message k (JSON newData)) s = Inr t
    \<and> isLoading t = False
    \<and> searchId t = query_id newData
    \<and> butlast (conversation t) = butlast (conversation s)
    \<and> snd (last (conversation t)) =
        (snd (last (conversation s)))
          \<lparr>ConversationMessage.isLoading := True,
           snippets := Some (case Answer.snippets newData of
                               None \<Rightarrow> []
                             | Some items \<Rightarrow>
                                 map (\<lambda>item. \<lparr>path = relative_path item,
                                               code = NLSnippet.text' item,
                                               repoName = repo_name item,
                                               lang = NLSnippet.lang item,
                                               line = start_line item\<rparr>) items)\<rparr>"
proof -
  have "mapSnippet = (\<lambda>item. \<lparr>path = relative_path item, code = NLSnippet.text' item,
      repoName = repo_name item, lang = NLSnippet.lang item, line = start_line item\<rparr>)"
    by (simp add: fun_eq_iff mapSnippet_def)
  with assms show ?thesis
    by (simp add: update_defs split: option.split)
qed

text \<open>
  C6 at the first event of a mounted page: a header with \<open>query_id\<close> \<open>q1\<close> and one
  snippet.
\<close>

theorem header_without_Err_witness:
  "is_open 0 (mount [] [] ''q'') \<and> i (sources (mount [] [] ''q'') ! 0) = 0
   \<and> conversation (mount [] [] ''q'') \<noteq> []
   \<and> (\<exists>t. step (Message 0 (JSON \<lparr>Err = None, query_id = Some ''q1'',
               snippets = Some [\<lparr>relative_path = ''a.rs'', text' = ''fn f()'',
                 repo_name = ''r'', lang = ''rust'', start_line = 7\<rparr>], Ok = None\<rparr>))
             (mount [] [] ''q'') = Inr t
        \<and> isLoading t = False \<and> searchId t = Some ''q1''
        \<and> snd (last (conversation t)) =
            \<lparr>author = Some Server, text' = None, ConversationMessage.isLoading = True,
             error = None,
             snippets = Some [\<lparr>path = ''a.rs'', code = ''fn f()'', repoName = ''r'',
               lang = ''rust'', line = 7\<rparr>]\<rparr>)"
  using header_without_Err [of 0 "mount [] [] ''q''"
      "\<lparr>Err = None, query_id = Some ''q1'',
        snippets = Some [\<lparr>relative_path = ''a.rs'', text' = ''fn f()'',
          repo_name = ''r'', lang = ''rust'', start_line = 7\<rparr>], Ok = None\<rparr>"]
  by (auto simp add: placeholder_def)

text \<open>
  C2, as the code has it. The first event of a session carries a truthy (non-empty)
  \<open>Err\<close>. The loading flag of the page becomes false and the last turn keeps its fields
  except \<open>isLoading\<close>, now false, and \<open>error\<close>, now \<open>Err\<close>. The handler does not close the
  source: it stays open and stays the one \<open>prevEventSource\<close> refers to, its counter is
  1, and any further parsed event of the session is handled as a token whose \<open>Ok\<close> is
  appended to the text of that turn.
\<close>

theorem Err_first_event:
  assumes "is_open k s" and "i (sources s ! k) = 0" and "truthy (Err newData)"
    and "conversation s \<noteq> []"
  shows "\<exists>t. step (Message k (JSON newData)) s = Inr t
    \<and> isLoading t = False
    \<and> butlast (conversation t) = butlast (conversation s)
    \<and> snd (last (conversation t)) =
        (snd (last (conversation s)))
          \<lparr>ConversationMessage.isLoading := False, error := Err newData\<rparr>
    \<and> is_open k t \<and> prevEventSource t = prevEventSource s \<and> i (sources t ! k) = 1
    \<and> (\<forall>token. \<exists>u. step (Message k (JSON token)) t = Inr u
          \<and> text' (snd (last (conversation u))) =
              Some (or_empty (text' (snd (last (conversation s)))) @ to_string (Ok token)))"
  using assms
  by (simp add: done_update_def err_update_def header_update_def token_update_def
        spread_last_def is_open_def)

text \<open>
  C2 (amended) at the first event of a mounted page, \<open>{Err: "bad query"}\<close>.
\<close>

theorem Err_first_event_witness:
  "is_open 0 (mount [] [] ''q'') \<and> i (sources (mount [] [] ''q'') ! 0) = 0
   \<and> truthy (Some ''bad query'') \<and> conversation (mount [] [] ''q'') \<noteq> []
   \<and> (\<exists>t. step (Message 0 (JSON \<lparr>Err = Some ''bad query'', query_id = None,
               snippets = None, Ok = None\<rparr>)) (mount [] [] ''q'') = Inr t
        \<and> isLoading t = False
        \<and> snd (last (conversation t)) =
            \<lparr>author = Some Server, text' = None, ConversationMessage.isLoading = False,
             error = Some ''bad query'', snippets = None\<rparr>
        \<and> is_open 0 t)"
  using Err_first_event [of 0 "mount [] [] ''q''"
      "\<lparr>Err = Some ''bad query'', query_id = None, snippets = None, Ok = None\<rparr>"]
  by (auto simp add: placeholder_def truthy_def)

text \<open>
  C2 as stated fails. After \<open>{Err: "bad query"}\<close> as first event the source is still
  open and still referred to by \<open>prevEventSource\<close>; a later \<open>{Ok: "late"}\<close> of the same
  session is processed and becomes the text of the failed turn. And a first event whose
  \<open>Err\<close> is the empty string carries an \<open>Err\<close> field, yet takes the header branch: the
  turn keeps loading and gets no error.
\<close>

theorem Err_first_event_counterexample:
  "(case run [Message 0 (JSON \<lparr>Err = Some ''bad query'', query_id = None,
                snippets = None, Ok = None\<rparr>)] (mount [] [] ''q'') of
      Inl e \<Rightarrow> False
    | Inr t \<Rightarrow> is_open 0 t \<and> prevEventSource t = Some 0)
   \<and> (case run [Message 0 (JSON \<lparr>Err = Some ''bad query'', query_id = None,
                  snippets = None, Ok = None\<rparr>),
                Message 0 (JSON \<lparr>Err = None, query_id = None,
                  snippets = None, Ok = Some ''late''\<rparr>)] (mount [] [] ''q'') of
        Inl e \<Rightarrow> False
      | Inr t \<Rightarrow> map snd (conversation t) =
          [\<lparr>author = Some User, text' = Some ''q'', ConversationMessage.isLoading = False,
            error = None, snippets = None\<rparr>,
           \<lparr>author = Some Server, text' = Some ''late'',
            ConversationMessage.isLoading = False, error = Some ''bad query'',
            snippets = None\<rparr>])
   \<and> (case run [Message 0 (JSON \<lparr>Err = Some [], query_id = None,
                  snippets = None, Ok = None\<rparr>)] (mount [] [] ''q'') of
        Inl e \<Rightarrow> False
      | Inr t \<Rightarrow> snd (last (conversation t)) =
          \<lparr>author = Some Server, text' = None, ConversationMessage.isLoading = True,
           error = None, snippets = Some []\<rparr>)"
  by (simp add: update_defs)

section \<open>Failures of the stream\<close>

text \<open>
  C3, as the code has it. On an error event of an open source the loading flag of the
  page becomes false and a new server turn with \<open>isLoading\<close> false and the error
  \<open>Sorry, something went wrong\<close> is appended; every earlier turn, the one in flight
  with its partial text included, is kept as it is. The handler neither closes the
  source nor clears \<open>prevEventSource\<close>: the source is open afterwards unless the browser
  had already failed the connection.
\<close>

theorem transport_error:
  assumes "is_open k s"
  shows "\<exists>t. step (Error k failed) s = Inr t
    \<and> isLoading t = False
    \<and> conversation t = conversation s @
        [(next_ref s, \<lparr>author = Some Server, text' = None,
           ConversationMessage.isLoading = False,
           error = Some ''Sorry, something went wrong'', snippets = None\<rparr>)]
    \<and> prevEventSource t = prevEventSource s
    \<and> is_open k t = (\<not> failed)
    \<and> sources (onerror s) = sources s"
  using assms
  by (simp add: error_turn_def)

text \<open>
  C3 (amended) at a mounted page whose source reports an error while reconnecting.
\<close>

theorem transport_error_witness:
  "is_open 0 (mount [] [] ''q'')
   \<and> (\<exists>t. step (Error 0 False) (mount [] [] ''q'') = Inr t
        \<and> isLoading t = False
        \<and> map snd (conversation t) =
            [\<lparr>author = Some User, text' = Some ''q'', ConversationMessage.isLoading = False,
              error = None, snippets = None\<rparr>,
             \<lparr>author = Some Server, text' = None, ConversationMessage.isLoading = True,
              error = None, snippets = None\<rparr>,
             \<lparr>author = Some Server, text' = None, ConversationMessage.isLoading = False,
              error = Some ''Sorry, something went wrong'', snippets = None\<rparr>]
        \<and> is_open 0 t)"
  using transport_error [of 0 "mount [] [] ''q''" False]
  by (auto simp add: placeholder_def user_turn_def)

text \<open>
  C3 as stated fails: after the error handler has run, the session is neither closed
  nor discarded. The source is open and \<open>prevEventSource\<close> still refers to it.
\<close>

theorem transport_error_counterexample:
  "(case run [Error 0 False] (mount [] [] ''q'') of
      Inl e \<Rightarrow> False
    | Inr t \<Rightarrow> is_open 0 t \<and> prevEventSource t = Some 0)"
  by (simp add: update_defs)




section \<open>Submitting a message\<close>

text \<open>
  C4, as the code has it. Submitting any message (the empty one included) appends
  the user turn \<open>{author: user, text: message, isLoading: false}\<close> and then the
  placeholder \<open>{author: server, isLoading: true}\<close> to the conversation, and afterwards
  exactly one source is open, the new one: only the new placeholder can still be
  updated. Nothing resets the \<open>isLoading\<close> of an earlier placeholder.
\<close>

theorem submit_appends:
  assumes "reachable s"
  shows "\<exists>t. step (NewMessage message) s = Inr t
    \<and> conversation t = conversation s @
        [(next_ref s, \<lparr>author = Some User, text' = Some message,
           ConversationMessage.isLoading = False, error = None, snippets = None\<rparr>),
         (Suc (next_ref s), \<lparr>author = Some Server, text' = None,
           ConversationMessage.isLoading = True, error = None, snippets = None\<rparr>)]
    \<and> (\<forall>j. is_open j t = (j = length (sources s)))"
proof -
  from reachable_invariants [OF assms] have "at_most_one_open s" by simp
  then have "\<forall>j. is_open j (handleNewMessage message s) = (j = length (sources s))"
    by (auto simp add: at_most_one_open_def)
  then show ?thesis
    by (simp add: user_turn_def placeholder_def)
qed

text \<open>
  C4 (amended) at a mounted page, with the empty message.
\<close>

theorem submit_appends_witness:
  "reachable (mount [] [] ''q'')
   \<and> (\<exists>t. step (NewMessage []) (mount [] [] ''q'') = Inr t
        \<and> map snd (conversation t) =
            [\<lparr>author = Some User, text' = Some ''q'', ConversationMessage.isLoading = False,
              error = None, snippets = None\<rparr>,
             \<lparr>author = Some Server, text' = None, ConversationMessage.isLoading = True,
              error = None, snippets = None\<rparr>,
             \<lparr>author = Some User, text' = Some [], ConversationMessage.isLoading = False,
              error = None, snippets = None\<rparr>,
             \<lparr>author = Some Server, text' = None, ConversationMessage.isLoading = True,
              error = None, snippets = None\<rparr>]
        \<and> is_open 1 t \<and> \<not> is_open 0 t)"
  using submit_appends [of "mount [] [] ''q''" "[]"] reachable_mount [of "[]" "[]" "''q''"]
  by (auto simp add: placeholder_def user_turn_def)

text \<open>
  C4 as stated fails in its last part: a message submitted before the first answer
  has produced any event leaves two server placeholders with \<open>isLoading\<close> true in the
  conversation.
\<close>

theorem submit_appends_counterexample:
  "(case run [NewMessage ''m''] (mount [] [] ''q'') of
      Inl e \<Rightarrow> False
    | Inr t \<Rightarrow>
        filter (\<lambda>m. author m = Some Server \<and> ConversationMessage.isLoading m)
          (map snd (conversation t)) =
          [\<lparr>author = Some Server, text' = None, ConversationMessage.isLoading = True,
            error = None, snippets = None\<rparr>,
           \<lparr>author = Some Server, text' = None, ConversationMessage.isLoading = True,
            error = None, snippets = None\<rparr>])"
  by (simp add: placeholder_def user_turn_def)

text \<open>
  C5. When a message is submitted, \<open>makeSearch\<close> closes the previous source before it
  constructs the new one: in the state in which \<open>new EventSource\<close> runs no source is
  open, and afterwards the new source is the only open one. Whatever happens later, a
  message or error event of any earlier source changes nothing.
\<close>

theorem superseded_session_is_silent:
  assumes "reachable s"
  shows "\<exists>t. step (NewMessage message) s = Inr t
    \<and> (\<forall>j. \<not> is_open j
          (close_prev ((setConversation (\<lambda>r prev. prev @ [(r, user_turn message)]) s)
             \<lparr>isLoading := True\<rparr>)))
    \<and> (\<forall>j. is_open j t = (j = length (sources s)))
    \<and> (\<forall>as u j d failed. run as t = Inr u \<and> j < length (sources s) \<longrightarrow>
          step (Message j d) u = Inr u \<and> step (Error j failed) u = Inr u)"
proof -
  from reachable_invariants [OF assms] have one: "at_most_one_open s" by simp
  define t where "t = render (handleNewMessage message s)"
  have t: "step (NewMessage message) s = Inr t" by (simp add: t_def)
  from one have before: "\<forall>j. \<not> is_open j
      (close_prev ((setConversation (\<lambda>r prev. prev @ [(r, user_turn message)]) s)
         \<lparr>isLoading := True\<rparr>))"
    by (auto simp add: at_most_one_open_def)
  from one have after: "\<forall>j. is_open j t = (j = length (sources s))"
    by (auto simp add: at_most_one_open_def t_def)
  have silent: "step (Message j d) u = Inr u \<and> step (Error j failed) u = Inr u"
    if r: "run as t = Inr u" and j: "j < length (sources s)" for as u j d failed
  proof -
    from j have "j < length (sources t)" by (simp add: t_def)
    moreover from j after have "\<not> is_open j t" by simp
    ultimately have "\<not> is_open j u" using run_not_reopened [OF r] by simp
    then show ?thesis by simp
  qed
  from t before after silent show ?thesis by blast
qed

text \<open>
  C5 at a mounted page: after a submit, a token and an error of the first source are
  ignored.
\<close>

theorem superseded_session_is_silent_witness:
  "reachable (mount [] [] ''q'')
   \<and> (\<exists>t. step (NewMessage ''m'') (mount [] [] ''q'') = Inr t
        \<and> \<not> is_open 0 t \<and> is_open 1 t
        \<and> step (Message 0 (JSON \<lparr>Err = None, query_id = None, snippets = None,
              Ok = Some ''stale''\<rparr>)) t = Inr t
        \<and> step (Error 0 False) t = Inr t)"
proof -
  have r: "reachable (mount [] [] ''q'')" by (rule reachable_mount)
  from superseded_session_is_silent [OF r, of "''m''"] obtain t where
    t: "step (NewMessage ''m'') (mount [] [] ''q'') = Inr t"
    and o: "\<forall>j. is_open j t = (j = length (sources (mount [] [] ''q'')))"
    and s: "\<forall>as u j d failed. run as t = Inr u \<and> j < length (sources (mount [] [] ''q''))
          \<longrightarrow> step (Message j d) u = Inr u \<and> step (Error j failed) u = Inr u"
    by blast
  from o have "\<not> is_open 0 t" and "is_open 1 t" by simp_all
  moreover have "run [] t = Inr t" by simp
  with s have "step (Message 0 (JSON \<lparr>Err = None, query_id = None, snippets = None,
      Ok = Some ''stale''\<rparr>)) t = Inr t" and "step (Error 0 False) t = Inr t"
    by (metis mount_facts(7) zero_less_one)+
  ultimately show ?thesis using r t by blast
qed

section \<open>The shape of the conversation\<close>

text \<open>
  C8. Whatever the page does in one step, the conversation afterwards is the previous
  one with turns appended, or the previous one with only its last element replaced: it
  never gets shorter, and every element but the last stays the same object at the same
  index. In every reachable state the conversation is not empty and its first turn is
  a user turn.
\<close>

theorem conversation_updates:
  "(step a s = Inr t \<longrightarrow>
      ((\<exists>xs. conversation t = conversation s @ xs)
       \<or> (\<exists>m. conversation s \<noteq> [] \<and> conversation t = butlast (conversation s) @ [m]))
      \<and> length (conversation s) \<le> length (conversation t)
      \<and> (\<forall>n. Suc n < length (conversation s) \<longrightarrow> conversation t ! n = conversation s ! n))
   \<and> (reachable s \<longrightarrow>
      conversation s \<noteq> [] \<and> author (snd (hd (conversation s))) = Some User)"
proof -
  have "length (conversation s) \<le> length (conversation t)
      \<and> (\<forall>n. Suc n < length (conversation s) \<longrightarrow> conversation t ! n = conversation s ! n)"
    if "(\<exists>xs. conversation t = conversation s @ xs)
       \<or> (\<exists>m. conversation s \<noteq> [] \<and> conversation t = butlast (conversation s) @ [m])"
    using that by (auto simp add: nth_append nth_butlast)
  moreover have "conversation s \<noteq> [] \<and> author (snd (hd (conversation s))) = Some User"
    if "reachable s"
    using reachable_invariants [OF that]
    by (auto simp add: starts_with_user_def ends_with_server_def)
  ultimately show ?thesis
    using step_shape [of a s t] by blast
qed

text \<open>
  C8 at a mounted page that receives \<open>[DONE]\<close>: the placeholder is replaced, the user
  turn in front of it is untouched.
\<close>

theorem conversation_updates_witness:
  "reachable (mount [] [] ''q'')
   \<and> step (Message 0 DONE) (mount [] [] ''q'') =
       Inr (render ((setConversation done_update (close 0 (mount [] [] ''q'')))
              \<lparr>prevEventSource := None\<rparr>))
   \<and> map snd (conversation (mount [] [] ''q'')) =
       [\<lparr>author = Some User, text' = Some ''q'', ConversationMessage.isLoading = False,
         error = None, snippets = None\<rparr>,
        \<lparr>author = Some Server, text' = None, ConversationMessage.isLoading = True,
         error = None, snippets = None\<rparr>]
   \<and> map snd (conversation (render ((setConversation done_update (close 0 (mount [] [] ''q'')))
              \<lparr>prevEventSource := None\<rparr>))) =
       [\<lparr>author = Some User, text' = Some ''q'', ConversationMessage.isLoading = False,
         error = None, snippets = None\<rparr>,
        \<lparr>author = Some Server, text' = None, ConversationMessage.isLoading = False,
         error = None, snippets = None\<rparr>]
   \<and> conversation (render ((setConversation done_update (close 0 (mount [] [] ''q'')))
              \<lparr>prevEventSource := None\<rparr>)) ! 0 = conversation (mount [] [] ''q'') ! 0
   \<and> author (snd (hd (conversation (mount [] [] ''q'')))) = Some User"
proof -
  let ?s = "mount [] [] ''q''"
  let ?t = "render ((setConversation done_update (close 0 ?s))\<lparr>prevEventSource := None\<rparr>)"
  have r: "reachable ?s" by (rule reachable_mount)
  have st: "step (Message 0 DONE) ?s = Inr ?t" by simp
  from conversation_updates [of "Message 0 DONE" ?s ?t] r st
  have "conversation ?t ! 0 = conversation ?s ! 0"
    and "author (snd (hd (conversation ?s))) = Some User"
    by simp_all
  with r st show ?thesis
    by (simp add: update_defs)
qed

section \<open>The turn whose snippets are shown\<close>

text \<open>
  Every event that a session handles replaces the last turn by a new object, so the
  identity of \<open>lastServerResponse\<close> changes and the view moves to the last turn.
\<close>

lemma stream_event_moves_view:
  assumes "reachable s" and "is_open k s" and "step (Message k d) s = Inr t"
  shows "length (conversation t) = length (conversation s)"
    and "map_option fst (lastServerResponse (conversation t)) = Some (next_ref s)"
    and "map_option fst (lastServerResponse (conversation t)) \<noteq>
         map_option fst (lastServerResponse (conversation s))"
    and "currentlyViewedSnippets t = int (length (conversation t)) - 1"
proof -
  from assms(2,3) obtain u where u: "onmessage k d s = Inr u" and t: "t = render u"
    by (auto split: sum.splits)
  from reachable_invariants [OF assms(1)] have e: "ends_with_server s"
    and d: "dep_current s" by simp_all
  from onmessage_conversation [OF u] e t obtain m where
    c: "conversation t = butlast (conversation s) @ [(next_ref s, m)]"
    and a: "author m = Some Server"
    by (auto simp add: ends_with_server_def spread_last_def)
  from c e show "length (conversation t) = length (conversation s)"
    by (simp add: ends_with_server_def)
  from c a show new: "map_option fst (lastServerResponse (conversation t)) = Some (next_ref s)"
    by (simp add: lastServerResponse_last)
  from e have "map_option fst (lastServerResponse (conversation s)) =
      Some (fst (last (conversation s)))"
    by (simp add: ends_with_server_def lastServerResponse_last)
  moreover from e have "last (conversation s) \<in> set (conversation s)"
    by (simp add: ends_with_server_def)
  with reachable_refs_fresh [OF assms(1)]
  have "fst (last (conversation s)) < next_ref s"
    by (simp add: refs_fresh_def list_all_iff)
  ultimately show differs: "map_option fst (lastServerResponse (conversation t)) \<noteq>
         map_option fst (lastServerResponse (conversation s))"
    using new by auto
  with step_view [OF d assms(3)]
  show "currentlyViewedSnippets t = int (length (conversation t)) - 1"
    by simp
qed

text \<open>
  C9, as the code has it. Across any step of a reachable state: if the identity of
  \<open>lastServerResponse\<close> has changed, \<open>currentlyViewedSnippets\<close> is the index of the last
  turn, and that turn is the new \<open>lastServerResponse\<close>; if it has not changed,
  \<open>currentlyViewedSnippets\<close> is the index the caller has just set, or else what it was
  before. Every message event that an open source delivers changes that identity
  without adding a turn.
\<close>

theorem view_follows_lastServerResponse:
  assumes "reachable s" and "step a s = Inr t"
  shows "(map_option fst (lastServerResponse (conversation t)) \<noteq>
          map_option fst (lastServerResponse (conversation s)) \<longrightarrow>
            currentlyViewedSnippets t = int (length (conversation t)) - 1
            \<and> lastServerResponse (conversation t) =
                Some (conversation t ! nat (currentlyViewedSnippets t)))
       \<and> (map_option fst (lastServerResponse (conversation t)) =
          map_option fst (lastServerResponse (conversation s)) \<longrightarrow>
            currentlyViewedSnippets t =
              (case a of ViewSnippets n \<Rightarrow> n | _ \<Rightarrow> currentlyViewedSnippets s))
       \<and> ((\<exists>k d. a = Message k d \<and> is_open k s) \<longrightarrow>
            length (conversation t) = length (conversation s)
            \<and> map_option fst (lastServerResponse (conversation t)) \<noteq>
                map_option fst (lastServerResponse (conversation s)))"
proof -
  from reachable_invariants [OF assms(1)] have d: "dep_current s" by simp
  from reachable_step [OF assms] have "reachable t" .
  from reachable_invariants [OF this] have e: "ends_with_server t" by simp
  then have "lastServerResponse (conversation t) = Some (last (conversation t))"
    by (simp add: ends_with_server_def lastServerResponse_last)
  moreover from e have "last (conversation t) =
      conversation t ! nat (int (length (conversation t)) - 1)"
    by (simp add: ends_with_server_def last_conv_nth nat_diff_distrib')
  ultimately have view: "(map_option fst (lastServerResponse (conversation t)) \<noteq>
          map_option fst (lastServerResponse (conversation s)) \<longrightarrow>
            currentlyViewedSnippets t = int (length (conversation t)) - 1
            \<and> lastServerResponse (conversation t) =
                Some (conversation t ! nat (currentlyViewedSnippets t)))
       \<and> (map_option fst (lastServerResponse (conversation t)) =
          map_option fst (lastServerResponse (conversation s)) \<longrightarrow>
            currentlyViewedSnippets t =
              (case a of ViewSnippets n \<Rightarrow> n | _ \<Rightarrow> currentlyViewedSnippets s))"
    using step_view [OF d assms(2)] by simp
  have "length (conversation t) = length (conversation s)
      \<and> map_option fst (lastServerResponse (conversation t)) \<noteq>
          map_option fst (lastServerResponse (conversation s))"
    if "\<exists>k d. a = Message k d \<and> is_open k s"
  proof -
    from that obtain k d where a: "a = Message k d" and o: "is_open k s" by blast
    from assms(2) a have st: "step (Message k d) s = Inr t" by simp
    from stream_event_moves_view(1,3) [OF assms(1) o st] show ?thesis by simp
  qed
  with view show ?thesis by blast
qed

text \<open>
  C9 (amended) at a mounted page: a submitted message moves the view from turn 1 to
  turn 3, the new placeholder; the caller then picks turn 1, and the view stays there.
\<close>

theorem view_follows_lastServerResponse_witness:
  "reachable (mount [] [] ''q'')
   \<and> (\<exists>t. step (NewMessage ''m'') (mount [] [] ''q'') = Inr t
        \<and> currentlyViewedSnippets (mount [] [] ''q'') = 1
        \<and> currentlyViewedSnippets t = 3
        \<and> (\<exists>u. step (ViewSnippets 1) t = Inr u \<and> currentlyViewedSnippets u = 1))"
proof -
  let ?s = "mount [] [] ''q''"
  let ?t = "render (handleNewMessage ''m'' ?s)"
  let ?u = "render (?t\<lparr>currentlyViewedSnippets := 1\<rparr>)"
  have r: "reachable ?s" by (rule reachable_mount)
  have st: "step (NewMessage ''m'') ?s = Inr ?t" by simp
  have su: "step (ViewSnippets 1) ?t = Inr ?u" by simp
  have rt: "reachable ?t" using r st by (rule reachable_step)
  have c: "map_option fst (lastServerResponse (conversation ?t)) \<noteq>
      map_option fst (lastServerResponse (conversation ?s))"
    by (simp add: lastServerResponse_def placeholder_def user_turn_def)
  have c': "map_option fst (lastServerResponse (conversation ?u)) =
      map_option fst (lastServerResponse (conversation ?t))"
    by simp
  from view_follows_lastServerResponse [OF r st] c
  have "currentlyViewedSnippets ?t = 3" by simp
  moreover from view_follows_lastServerResponse [OF rt su] c'
  have "currentlyViewedSnippets ?u = 1" by simp
  moreover have "currentlyViewedSnippets ?s = 1"
    by (simp add: mount_def initial_def lastServerResponse_def placeholder_def user_turn_def)
  ultimately show ?thesis using r st su by blast
qed

text \<open>
  C9 as stated fails in its second part. While an answer streams, the caller picks
  turn 0; the next token arrives for the turn in flight, no turn is added, and the view
  is back on turn 1.
\<close>

theorem view_follows_lastServerResponse_counterexample:
  "(case run [Message 0 (JSON \<lparr>Err = None, query_id = Some ''q1'', snippets = None,
                Ok = None\<rparr>),
              ViewSnippets 0] (mount [] [] ''q'') of
      Inl e \<Rightarrow> False
    | Inr t \<Rightarrow> currentlyViewedSnippets t = 0 \<and> length (conversation t) = 2)
   \<and> (case run [Message 0 (JSON \<lparr>Err = None, query_id = Some ''q1'', snippets = None,
                  Ok = None\<rparr>),
                ViewSnippets 0,
                Message 0 (JSON \<lparr>Err = None, query_id = None, snippets = None,
                  Ok = Some ''Hello''\<rparr>)] (mount [] [] ''q'') of
        Inl e \<Rightarrow> False
      | Inr t \<Rightarrow> currentlyViewedSnippets t = 1 \<and> length (conversation t) = 2)"
  by (simp add: update_defs lastServerResponse_def)

section \<open>The loading flag of the page\<close>

text \<open>
  C10. A session is started in a reachable state and the first event of its source is
  \<open>[DONE]\<close>. Whatever the sources deliver and whatever turn the caller views afterwards,
  as long as no new session is started: no handler throws, the loading flag of the page
  is still true, the last turn has \<open>isLoading\<close> false, and no source is open. In general
  a step takes the loading flag from true to false only if it is a parsed, non-sentinel
  first event (\<open>i = 0\<close>) of an open source, or an error event of an open source. The
  first part holds as well for the session that mounting the page starts.
\<close>

theorem sentinel_first_keeps_loading:
  assumes "reachable s" and "start = NewMessage q \<or> start = QueryChanged q"
    and "list_all (\<lambda>a. \<not> starts_session a) later"
  shows "(\<exists>t. run (start # Message (length (sources s)) DONE # later) s = Inr t
           \<and> isLoading t
           \<and> \<not> ConversationMessage.isLoading (snd (last (conversation t)))
           \<and> (\<forall>k. \<not> is_open k t))
       \<and> (step a s' = Inr t' \<and> isLoading s' \<and> \<not> isLoading t' \<longrightarrow>
           (\<exists>k d. a = Message k d \<and> d \<noteq> DONE \<and> is_open k s' \<and> i (sources s' ! k) = 0)
           \<or> (\<exists>k failed. a = Error k failed \<and> is_open k s'))
       \<and> (\<exists>t. run (Message 0 DONE # later) (mount api dev query) = Inr t
           \<and> isLoading t
           \<and> \<not> ConversationMessage.isLoading (snd (last (conversation t)))
           \<and> (\<forall>k. \<not> is_open k t))"
proof -
  from reachable_invariants [OF assms(1)] have one: "at_most_one_open s" by simp
  define n where "n = length (sources s)"
  obtain s1 where s1: "step start s = Inr s1" and s1_def: "s1 = render (makeSearch q s) \<or> s1 = render (handleNewMessage q s)"
    using assms(2) by auto
  from s1_def one have o1: "\<forall>j. is_open j s1 = (j = n)"
    by (auto simp add: at_most_one_open_def n_def)
  define s2 where "s2 = render ((setConversation done_update (close n s1))\<lparr>prevEventSource := None\<rparr>)"
  from o1 have s2: "step (Message n DONE) s1 = Inr s2" by (simp add: s2_def)
  from o1 have o2: "\<forall>j. \<not> is_open j s2" by (simp add: s2_def)
  from s1_def have l2: "isLoading s2" by (auto simp add: s2_def)
  have c2: "\<not> ConversationMessage.isLoading (snd (last (conversation s2)))"
    by (simp add: s2_def done_update_def)
  from quiet_run [OF o2 assms(3)] obtain t where
    t: "run later s2 = Inr t" "isLoading t = isLoading s2" "conversation t = conversation s2"
       "sources t = sources s2"
    by auto
  from t(4) o2 have "\<forall>k. \<not> is_open k t" by (simp add: is_open_def)
  with s1 s2 t l2 c2 have
    "\<exists>t. run (start # Message (length (sources s)) DONE # later) s = Inr t
           \<and> isLoading t
           \<and> \<not> ConversationMessage.isLoading (snd (last (conversation t)))
           \<and> (\<forall>k. \<not> is_open k t)"
    by (simp add: n_def)
  moreover have "\<exists>t. run (Message 0 DONE # later) (mount api dev query) = Inr t
           \<and> isLoading t
           \<and> \<not> ConversationMessage.isLoading (snd (last (conversation t)))
           \<and> (\<forall>k. \<not> is_open k t)"
  proof -
    define m where "m = render ((setConversation done_update (close 0 (mount api dev query)))
        \<lparr>prevEventSource := None\<rparr>)"
    have m: "step (Message 0 DONE) (mount api dev query) = Inr m" by (simp add: m_def)
    have om: "\<forall>j. \<not> is_open j m" by (auto simp add: m_def)
    have lm: "isLoading m" by (simp add: m_def)
    have cm: "\<not> ConversationMessage.isLoading (snd (last (conversation m)))"
      by (simp add: m_def done_update_def)
    from quiet_run [OF om assms(3)] obtain u where
      u: "run later m = Inr u" "isLoading u = isLoading m" "conversation u = conversation m"
         "sources u = sources m"
      by auto
    from u(4) om have "\<forall>k. \<not> is_open k u" by (simp add: is_open_def)
    with m u lm cm show ?thesis by simp
  qed
  ultimately show ?thesis using step_clears_loading [of a s' t'] by blast
qed

text \<open>
  C10 at a mounted page: a message is submitted, its source delivers \<open>[DONE]\<close> first,
  then a token and an error, and the caller views turn 0; the page is still loading.
  An error event of the first source is a step that clears the flag.
\<close>

theorem sentinel_first_keeps_loading_witness:
  "reachable (mount [] [] ''q'')
   \<and> list_all (\<lambda>a. \<not> starts_session a)
       [Message 1 (JSON \<lparr>Err = None, query_id = None, snippets = None, Ok = Some ''x''\<rparr>),
        Error 1 False, ViewSnippets 0]
   \<and> (\<exists>t. run [NewMessage ''m'', Message 1 DONE,
          Message 1 (JSON \<lparr>Err = None, query_id = None, snippets = None, Ok = Some ''x''\<rparr>),
          Error 1 False, ViewSnippets 0] (mount [] [] ''q'') = Inr t
        \<and> isLoading t
        \<and> \<not> ConversationMessage.isLoading (snd (last (conversation t))))
   \<and> step (Error 0 False) (mount [] [] ''q'') = Inr (render (onerror (mount [] [] ''q'')))
   \<and> isLoading (mount [] [] ''q'')
   \<and> \<not> isLoading (render (onerror (mount [] [] ''q'')))
   \<and> is_open 0 (mount [] [] ''q'')"
proof -
  let ?s = "mount [] [] ''q''"
  let ?later = "[Message 1 (JSON \<lparr>Err = None, query_id = None, snippets = None,
      Ok = Some ''x''\<rparr>), Error 1 False, ViewSnippets 0]"
  have r: "reachable ?s" by (rule reachable_mount)
  have l: "list_all (\<lambda>a. \<not> starts_session a) ?later" by simp
  have e: "step (Error 0 False) ?s = Inr (render (onerror ?s))" by simp
  from sentinel_first_keeps_loading [OF r _ l, of "NewMessage ''m''" "''m''"
      "Error 0 False" ?s "render (onerror ?s)"] e
  have "\<exists>t. run (NewMessage ''m'' # Message (length (sources ?s)) DONE # ?later) ?s = Inr t
        \<and> isLoading t \<and> \<not> ConversationMessage.isLoading (snd (last (conversation t)))"
    and "is_open 0 ?s"
    by auto
  with r l e show ?thesis by simp
qed

end
